theory Spec2Isabelle
  imports Main "HOL-Library.Word"
begin

unbundle bit_operations_syntax

section \<open>The Snowflake ID generator\<close>

text \<open>
  A shallow embedding of the package \<open>idgenerator\<close> (NewSnowflakeID, its six options and
  getElapsedTimestamp). Go's \<open>int64\<close> is a 64-bit word read as two's complement; Go's
  \<open>int\<close> is taken at its 64-bit width, so \<open>int64(v)\<close> is the identity. Comparisons of
  the source are the signed ones (\<open><s\<close>, \<open>\<le>s\<close>). The mutex guards a state no other
  call can reach and has no effect on the result, so it is left out.
\<close>

subsection \<open>The parts of the standard library the package calls\<close>

text \<open>
  A \<open>time.Time\<close> is an instant with nanosecond resolution: here the number of
  nanoseconds since 1970-01-01T00:00:00Z, as an unbounded integer. A \<open>time.Duration\<close>
  is a signed 64-bit count of nanoseconds.
\<close>

type_synonym time = int
type_synonym int64 = "64 word"

text \<open>Days between 1970-01-01 and the first day of month \<open>m\<close> (1 to 12) of year \<open>y\<close>
  in the proleptic Gregorian calendar.\<close>

definition daysSinceEpoch :: "int \<Rightarrow> int \<Rightarrow> int" where
  "daysSinceEpoch y m =
     (let y' = (if m \<le> 2 then y - 1 else y);
          era = y' div 400;
          yoe = y' - era * 400;
          doy = (153 * (if m > 2 then m - 3 else m + 9) + 2) div 5;
          doe = yoe * 365 + yoe div 4 - yoe div 100 + doy
      in era * 146097 + doe - 719468)"

text \<open>\<open>time.Date(year, month, day, hour, min, sec, nsec, time.UTC)\<close>: the month is
  normalised into the year, the other fields count linearly.\<close>

definition Date :: "int \<Rightarrow> int \<Rightarrow> int \<Rightarrow> int \<Rightarrow> int \<Rightarrow> int \<Rightarrow> int \<Rightarrow> time" where
  "Date year month day hour minute sec nsec =
     (let m0 = month - 1;
          y = year + m0 div 12;
          m = m0 mod 12 + 1;
          days = daysSinceEpoch y m + (day - 1)
      in (days * 86400 + hour * 3600 + minute * 60 + sec) * 1000000000 + nsec)"

text \<open>The zero value of \<open>time.Time\<close> is January 1, year 1, 00:00:00 UTC.\<close>

definition zeroTime :: time where
  "zeroTime = - 62135596800000000000"

definition IsZero :: "time \<Rightarrow> bool" where
  "IsZero t = (t = zeroTime)"

text \<open>\<open>t.UnixMilli()\<close> is \<open>t.unixSec()*1e3 + int64(t.nsec())/1e6\<close> in 64-bit
  arithmetic, with \<open>0 \<le> nsec < 1e9\<close>: the floor of the milliseconds, wrapped.\<close>

definition UnixMilli :: "time \<Rightarrow> int64" where
  "UnixMilli t = word_of_int (t div 1000000)"

text \<open>\<open>time.UnixMilli(msec)\<close>, the instant \<open>msec\<close> milliseconds after 1970-01-01.\<close>

definition timeUnixMilli :: "int64 \<Rightarrow> time" where
  "timeUnixMilli msec = sint msec * 1000000"

text \<open>\<open>t.Sub(u)\<close> saturates at the least and the greatest \<open>Duration\<close>.\<close>

definition Sub :: "time \<Rightarrow> time \<Rightarrow> int" where
  "Sub t u =
     (let d = t - u
      in if d < - (2 ^ 63) then - (2 ^ 63) else if d > 2 ^ 63 - 1 then 2 ^ 63 - 1 else d)"

text \<open>\<open>d.Milliseconds()\<close> is \<open>int64(d) / 1e6\<close>; Go's division truncates towards zero.\<close>

definition Milliseconds :: "int \<Rightarrow> int" where
  "Milliseconds d = sgn d * (\<bar>d\<bar> div 1000000)"

text \<open>
  The global random source is an infinite sequence of raw draws. \<open>rand.Intn(n)\<close> returns
  a value of \<open>[0, n)\<close> and advances the source; every value of the range is the image
  of some draw. It panics for \<open>n \<le> 0\<close>, which the package's constant arguments exclude.
\<close>

type_synonym rng = "nat \<Rightarrow> nat"

definition Intn :: "nat \<Rightarrow> rng \<Rightarrow> int64 \<times> rng" where
  "Intn n g = (word_of_nat (g 0 mod n), \<lambda>i. g (Suc i))"

subsection \<open>Constants, errors and the state\<close>

definition timestampBitRange :: nat where "timestampBitRange = 41"
definition datacenterBitRange :: nat where "datacenterBitRange = 5"
definition machineBitRange :: nat where "machineBitRange = 5"
definition sequenceNumBitRange :: nat where "sequenceNumBitRange = 12"

definition timestampBitShift :: nat where
  "timestampBitShift = datacenterBitRange + machineBitRange + sequenceNumBitRange"
definition datacenterBitShift :: nat where
  "datacenterBitShift = machineBitRange + sequenceNumBitRange"
definition machineBitShift :: nat where
  "machineBitShift = sequenceNumBitRange"

definition defaultBaseTime :: time where
  "defaultBaseTime = Date 2024 1 1 0 0 0 0"

datatype error =
    ErrOverLifeTime
  | ErrInvalidTimestamp
  | ErrInvalidDatacenterID
  | ErrInvalidMachineID
  | ErrInvalidSequenceNumber

record snowflake =
  timestamp :: int64
  datacenterID :: int64
  machineID :: int64
  sequenceNumber :: int64
  baseTime :: time
  random :: bool

text \<open>\<open>&snowflake{}\<close>: every field at its zero value.\<close>

definition snowflake0 :: snowflake where
  "snowflake0 = \<lparr>timestamp = 0, datacenterID = 0, machineID = 0, sequenceNumber = 0,
                  baseTime = zeroTime, random = False\<rparr>"

text \<open>An option is a function on the state that may fail: \<open>func(*snowflake) error\<close>.\<close>

type_synonym option_fn = "snowflake \<Rightarrow> error + snowflake"

subsection \<open>The options\<close>

definition WithTimestamp :: "time \<Rightarrow> option_fn" where
  "WithTimestamp v s = Inr (s\<lparr>timestamp := UnixMilli v\<rparr>)"

text \<open>\<open>int(math.Pow(2, n)) - 1\<close> is \<open>2 ^ n - 1\<close>: the power is exact in a float64.\<close>

definition WithDatacenterID :: "int64 \<Rightarrow> option_fn" where
  "WithDatacenterID v s =
     (if v <s 0 \<or> 2 ^ datacenterBitRange - 1 <s v then Inl ErrInvalidDatacenterID
      else Inr (s\<lparr>datacenterID := v\<rparr>))"

definition WithMachineID :: "int64 \<Rightarrow> option_fn" where
  "WithMachineID v s =
     (if v <s 0 \<or> 2 ^ machineBitRange - 1 <s v then Inl ErrInvalidMachineID
      else Inr (s\<lparr>machineID := v\<rparr>))"

definition WithSequenceNumber :: "int64 \<Rightarrow> option_fn" where
  "WithSequenceNumber v s =
     (if v <s 0 \<or> 2 ^ sequenceNumBitRange - 1 <s v then Inl ErrInvalidSequenceNumber
      else Inr (s\<lparr>sequenceNumber := v\<rparr>))"

definition WithBaseTime :: "time \<Rightarrow> option_fn" where
  "WithBaseTime v s = Inr (s\<lparr>baseTime := v\<rparr>)"

definition WithRandomEnabled :: option_fn where
  "WithRandomEnabled s = Inr (s\<lparr>random := True\<rparr>)"

subsection \<open>The clock resolver\<close>

text \<open>The second argument is the reading of \<open>time.Now().UTC()\<close>.\<close>

definition getElapsedTimestamp :: "snowflake \<Rightarrow> time \<Rightarrow> error + int64" where
  "getElapsedTimestamp s now =
     (let at = (if 0 <s timestamp s then timeUnixMilli (timestamp s) else now);
          bt = (if \<not> IsZero (baseTime s) then baseTime s else defaultBaseTime);
          diffMilli = Milliseconds (Sub at bt)
      in if diffMilli \<le> 0 then Inl ErrInvalidTimestamp
         else if diffMilli > 2 ^ timestampBitRange - 1 then Inl ErrOverLifeTime
         else Inr (word_of_int diffMilli))"

subsection \<open>The generator\<close>

text \<open>The loop over the options: the first error ends it.\<close>

fun applyOpts :: "option_fn list \<Rightarrow> snowflake \<Rightarrow> error + snowflake" where
  "applyOpts [] s = Inr s"
| "applyOpts (f # opts) s =
     (case f s of Inl err \<Rightarrow> Inl err | Inr s' \<Rightarrow> applyOpts opts s')"

text \<open>
  The arguments of \<open>rand.Intn\<close> as the source writes them: in Go \<open>^\<close> is bitwise
  exclusive or, of the precedence of \<open>-\<close>, so \<open>2 ^ n - 1\<close> is \<open>(2 XOR n) - 1\<close>.
\<close>

definition randCeiling :: "nat \<Rightarrow> nat" where
  "randCeiling bitRange = (2 XOR bitRange) - 1"

text \<open>The block under \<open>if s.random\<close>: each field still at zero takes the next draw.\<close>

definition randomize :: "snowflake \<Rightarrow> rng \<Rightarrow> snowflake" where
  "randomize s g =
     (let (s1, g1) = (if datacenterID s = 0
                      then (let (r, g') = Intn (randCeiling datacenterBitRange) g
                            in (s\<lparr>datacenterID := r\<rparr>, g'))
                      else (s, g));
          (s2, g2) = (if machineID s1 = 0
                      then (let (r, g') = Intn (randCeiling machineBitRange) g1
                            in (s1\<lparr>machineID := r\<rparr>, g'))
                      else (s1, g1));
          (s3, g3) = (if sequenceNumber s2 = 0
                      then (let (r, g') = Intn (randCeiling sequenceNumBitRange) g2
                            in (s2\<lparr>sequenceNumber := r\<rparr>, g'))
                      else (s2, g2))
      in s3)"

text \<open>The last two lines of NewSnowflakeID: the fields shifted into place and or-ed.\<close>

definition generatedID :: "snowflake \<Rightarrow> int64" where
  "generatedID s =
     push_bit timestampBitShift (timestamp s)
     OR push_bit datacenterBitShift (datacenterID s)
     OR push_bit machineBitShift (machineID s)
     OR sequenceNumber s"

text \<open>The result is the pair \<open>(int64, error)\<close>; \<open>None\<close> is the nil error.\<close>

definition NewSnowflakeID :: "option_fn list \<Rightarrow> time \<Rightarrow> rng \<Rightarrow> int64 \<times> error option" where
  "NewSnowflakeID opts now g =
     (case applyOpts opts snowflake0 of
        Inl err \<Rightarrow> (0, Some err)
      | Inr s \<Rightarrow>
          (case getElapsedTimestamp s now of
             Inl err \<Rightarrow> (0, Some err)
           | Inr ts \<Rightarrow>
               (let s1 = s\<lparr>timestamp := ts\<rparr>;
                    s2 = (if random s1 then randomize s1 g else s1)
                in (generatedID s2, None))))"

subsection \<open>The test's rendering of an id\<close>

text \<open>The \<open>w\<close> low binary digits of \<open>n\<close>, most significant first.\<close>

fun binaryDigits :: "nat \<Rightarrow> nat \<Rightarrow> string" where
  "binaryDigits 0 n = []"
| "binaryDigits (Suc w) n = binaryDigits w (n div 2) @ [if odd n then CHR ''1'' else CHR ''0'']"

text \<open>\<open>fmt.Sprintf("%064b", got)\<close> of the test: the binary digits padded with zeros to
  64 characters, a minus sign taking the place of the first one.\<close>

definition Sprintf064b :: "int64 \<Rightarrow> string" where
  "Sprintf064b x =
     (if sint x < 0
      then CHR ''-'' # binaryDigits (if sint x = - (2 ^ 63) then 64 else 63) (nat (- sint x))
      else binaryDigits 64 (nat (sint x)))"

text \<open>A stub random source whose every raw draw is \<open>k\<close>.\<close>

definition fixedSource :: "nat \<Rightarrow> rng" where
  "fixedSource k i = k"

subsection \<open>Notions of the specification\<close>

text \<open>The inverse shift-and-mask operations; \<open>>>\<close> on an \<open>int64\<close> is the arithmetic
  shift.\<close>

definition decodeTimestamp :: "int64 \<Rightarrow> int64" where
  "decodeTimestamp x = signed_drop_bit 22 x"

definition decodeDatacenterID :: "int64 \<Rightarrow> int64" where
  "decodeDatacenterID x = signed_drop_bit 17 x AND 31"

definition decodeMachineID :: "int64 \<Rightarrow> int64" where
  "decodeMachineID x = signed_drop_bit 12 x AND 31"

definition decodeSequenceNumber :: "int64 \<Rightarrow> int64" where
  "decodeSequenceNumber x = x AND 4095"

text \<open>The three identifier fields within their bit widths.\<close>

definition fieldsInRange :: "snowflake \<Rightarrow> bool" where
  "fieldsInRange s \<longleftrightarrow>
     0 \<le>s datacenterID s \<and> datacenterID s \<le>s 31 \<and>
     0 \<le>s machineID s \<and> machineID s \<le>s 31 \<and>
     0 \<le>s sequenceNumber s \<and> sequenceNumber s \<le>s 4095"

text \<open>The type \<open>option\<close> is unexported: a caller outside the package builds options
  with the six constructors only.\<close>

definition exportedOptions :: "option_fn set" where
  "exportedOptions =
     range WithTimestamp \<union> range WithDatacenterID \<union> range WithMachineID \<union>
     range WithSequenceNumber \<union> range WithBaseTime \<union> {WithRandomEnabled}"

text \<open>The elapsed milliseconds in the specification's words: the effective timestamp
  (the override, or the current time) minus the effective epoch (the override, or the
  default), in whole milliseconds, with no saturation.\<close>

definition effectiveTimestamp :: "snowflake \<Rightarrow> time \<Rightarrow> time" where
  "effectiveTimestamp s now = (if 0 <s timestamp s then timeUnixMilli (timestamp s) else now)"

definition effectiveBaseTime :: "snowflake \<Rightarrow> time" where
  "effectiveBaseTime s = (if IsZero (baseTime s) then defaultBaseTime else baseTime s)"

definition elapsedMilliseconds :: "snowflake \<Rightarrow> time \<Rightarrow> int" where
  "elapsedMilliseconds s now = Milliseconds (effectiveTimestamp s now - effectiveBaseTime s)"

section \<open>Auxiliary facts\<close>

subsection \<open>Signed ranges of 64-bit words\<close>

lemma sint_small_take_bit:
  fixes v :: int64
  assumes "0 \<le> sint v" "sint v < 2 ^ n"
  shows "take_bit n v = v"
proof -
  have "take_bit n v = take_bit n (word_of_int (sint v) :: int64)"
    by simp
  also have "\<dots> = word_of_int (take_bit n (sint v))"
    by (simp only: take_bit_of_int)
  also have "take_bit n (sint v) = sint v"
    using assms by (simp add: take_bit_int_eq_self)
  finally show ?thesis by simp
qed

lemma take_bit_sint_small:
  fixes v :: int64
  assumes "take_bit n v = v" "n < 64"
  shows "0 \<le> sint v \<and> sint v < 2 ^ n"
proof -
  have u: "uint v < 2 ^ n"
    by (metis assms(1) unsigned_take_bit_eq take_bit_int_less_exp)
  have "(2::int) ^ n \<le> 2 ^ 63"
    using assms(2) by (intro power_increasing) simp_all
  with u have "uint v < 2 ^ 63" by simp
  moreover have "- (2 ^ 63) \<le> uint v"
    by (rule order_trans [of _ 0]) simp_all
  ultimately have "sint v = uint v"
    using signed_take_bit_int_eq_self [of 63 "uint v"] by (simp add: sint_uint)
  with u show ?thesis by simp
qed

lemma range5_iff:
  fixes v :: int64
  shows "0 \<le>s v \<and> v \<le>s 31 \<longleftrightarrow> take_bit 5 v = v"
proof
  assume "0 \<le>s v \<and> v \<le>s 31"
  then have "0 \<le> sint v" "sint v < 2 ^ 5" by (simp_all add: word_sle_eq)
  then show "take_bit 5 v = v" by (rule sint_small_take_bit)
next
  assume "take_bit 5 v = v"
  then have "0 \<le> sint v \<and> sint v < 2 ^ 5" by (rule take_bit_sint_small) simp
  then show "0 \<le>s v \<and> v \<le>s 31" by (simp add: word_sle_eq)
qed

lemma range12_iff:
  fixes v :: int64
  shows "0 \<le>s v \<and> v \<le>s 4095 \<longleftrightarrow> take_bit 12 v = v"
proof
  assume "0 \<le>s v \<and> v \<le>s 4095"
  then have "0 \<le> sint v" "sint v < 2 ^ 12" by (simp_all add: word_sle_eq)
  then show "take_bit 12 v = v" by (rule sint_small_take_bit)
next
  assume "take_bit 12 v = v"
  then have "0 \<le> sint v \<and> sint v < 2 ^ 12" by (rule take_bit_sint_small) simp
  then show "0 \<le>s v \<and> v \<le>s 4095" by (simp add: word_sle_eq)
qed

lemma word_of_nat_small:
  assumes "k < 2 ^ n"
  shows "take_bit n (word_of_nat k :: int64) = word_of_nat k"
proof -
  have "take_bit n k = k" using assms by (simp add: take_bit_nat_eq_self)
  then show ?thesis by (simp add: take_bit_of_nat)
qed

lemma sint_eq_0_iff:
  fixes x :: int64
  shows "sint x = 0 \<longleftrightarrow> x = 0"
proof
  assume "sint x = 0"
  then have "(word_of_int (sint x) :: int64) = word_of_int 0" by (rule arg_cong)
  then show "x = 0" by simp
qed simp

subsection \<open>The bit fields of a packed id\<close>

lemma mask_numerals: "(31 :: int64) = mask 5" "(4095 :: int64) = mask 12"
  by (simp_all add: mask_eq_exp_minus_1)

lemma packed_timestamp:
  fixes ts dc m sq :: int64
  shows "signed_drop_bit 22 (push_bit 22 (take_bit 41 ts) OR push_bit 17 (take_bit 5 dc)
           OR push_bit 12 (take_bit 5 m) OR take_bit 12 sq) = take_bit 41 ts"
  by (rule bit_word_eqI) (auto simp: bit_simps)

lemma packed_datacenter:
  fixes ts dc m sq :: int64
  shows "signed_drop_bit 17 (push_bit 22 (take_bit 41 ts) OR push_bit 17 (take_bit 5 dc)
           OR push_bit 12 (take_bit 5 m) OR take_bit 12 sq) AND mask 5 = take_bit 5 dc"
  by (rule bit_word_eqI) (auto simp: bit_simps)

lemma packed_machine:
  fixes ts dc m sq :: int64
  shows "signed_drop_bit 12 (push_bit 22 (take_bit 41 ts) OR push_bit 17 (take_bit 5 dc)
           OR push_bit 12 (take_bit 5 m) OR take_bit 12 sq) AND mask 5 = take_bit 5 m"
  by (rule bit_word_eqI) (auto simp: bit_simps)

lemma packed_sequence:
  fixes ts dc m sq :: int64
  shows "(push_bit 22 (take_bit 41 ts) OR push_bit 17 (take_bit 5 dc)
           OR push_bit 12 (take_bit 5 m) OR take_bit 12 sq) AND mask 12 = take_bit 12 sq"
  by (rule bit_word_eqI) (auto simp: bit_simps)

lemma packed_63_bits:
  fixes ts dc m sq :: int64
  shows "take_bit 63 (push_bit 22 (take_bit 41 ts) OR push_bit 17 (take_bit 5 dc)
           OR push_bit 12 (take_bit 5 m) OR take_bit 12 sq)
         = push_bit 22 (take_bit 41 ts) OR push_bit 17 (take_bit 5 dc)
           OR push_bit 12 (take_bit 5 m) OR take_bit 12 sq"
  by (rule bit_word_eqI) (auto simp: bit_simps)

lemmas shift_defs =
  timestampBitShift_def datacenterBitShift_def machineBitShift_def
  timestampBitRange_def datacenterBitRange_def machineBitRange_def sequenceNumBitRange_def

text \<open>A state whose fields are in range is packed without loss.\<close>

lemma generatedID_fields:
  assumes "fieldsInRange s" and "0 < sint (timestamp s)" and "sint (timestamp s) \<le> 2 ^ 41 - 1"
  shows "decodeTimestamp (generatedID s) = timestamp s"
    and "decodeDatacenterID (generatedID s) = datacenterID s"
    and "decodeMachineID (generatedID s) = machineID s"
    and "decodeSequenceNumber (generatedID s) = sequenceNumber s"
    and "take_bit 63 (generatedID s) = generatedID s"
proof -
  have ts: "take_bit 41 (timestamp s) = timestamp s"
    using assms(2,3) by (intro sint_small_take_bit) simp_all
  have dc: "take_bit 5 (datacenterID s) = datacenterID s"
    and m: "take_bit 5 (machineID s) = machineID s"
    and sq: "take_bit 12 (sequenceNumber s) = sequenceNumber s"
    using assms(1) by (simp_all add: fieldsInRange_def flip: range5_iff range12_iff)
  have g: "generatedID s =
      push_bit 22 (take_bit 41 (timestamp s)) OR push_bit 17 (take_bit 5 (datacenterID s))
      OR push_bit 12 (take_bit 5 (machineID s)) OR take_bit 12 (sequenceNumber s)"
    by (simp add: generatedID_def shift_defs ts dc m sq)
  show "decodeTimestamp (generatedID s) = timestamp s"
    unfolding decodeTimestamp_def g packed_timestamp by (rule ts)
  show "decodeDatacenterID (generatedID s) = datacenterID s"
    unfolding decodeDatacenterID_def g mask_numerals packed_datacenter by (rule dc)
  show "decodeMachineID (generatedID s) = machineID s"
    unfolding decodeMachineID_def g mask_numerals packed_machine by (rule m)
  show "decodeSequenceNumber (generatedID s) = sequenceNumber s"
    unfolding decodeSequenceNumber_def g mask_numerals packed_sequence by (rule sq)
  show "take_bit 63 (generatedID s) = generatedID s"
    unfolding g by (rule packed_63_bits)
qed

lemma generatedID_positive:
  assumes "fieldsInRange s" and "0 < sint (timestamp s)" and "sint (timestamp s) \<le> 2 ^ 41 - 1"
  shows "0 < sint (generatedID s)" and "sint (generatedID s) \<le> 2 ^ 63 - 1"
    and "\<not> bit (generatedID s) 63"
proof -
  have t: "take_bit 63 (generatedID s) = generatedID s"
    using assms by (rule generatedID_fields)
  then have r: "0 \<le> sint (generatedID s) \<and> sint (generatedID s) < 2 ^ 63"
    by (rule take_bit_sint_small) simp
  then show "sint (generatedID s) \<le> 2 ^ 63 - 1" by simp
  have "generatedID s \<noteq> 0"
  proof
    assume z: "generatedID s = 0"
    have "decodeTimestamp (generatedID s) = timestamp s"
      using assms by (rule generatedID_fields)
    then have "timestamp s = 0" by (simp add: z decodeTimestamp_def)
    with assms(2) show False by simp
  qed
  then have "sint (generatedID s) \<noteq> 0"
    by (simp add: sint_eq_0_iff)
  with r show "0 < sint (generatedID s)" by simp
  show "\<not> bit (generatedID s) 63"
    by (subst t [symmetric]) (simp add: bit_take_bit_iff)
qed

subsection \<open>The clock resolver\<close>

lemma less_div_million: "k < d div 1000000 \<longleftrightarrow> (k + 1) * 1000000 \<le> (d::int)"
proof -
  define q r where "q = d div 1000000" and "r = d mod 1000000"
  have d: "d = q * 1000000 + r" by (simp add: q_def r_def)
  have r: "0 \<le> r" "r < 1000000" by (simp_all add: r_def)
  show ?thesis unfolding q_def [symmetric] using d r by auto
qed

lemma Milliseconds_pos: "0 < d \<Longrightarrow> Milliseconds d = d div 1000000"
  by (simp add: Milliseconds_def)

lemma Milliseconds_le_0_iff: "Milliseconds d \<le> 0 \<longleftrightarrow> d < 1000000"
proof (cases "d \<le> 0")
  case True
  then have "0 \<le> \<bar>d\<bar> div 1000000" by simp
  with True show ?thesis
    by (cases "d = 0") (simp_all add: Milliseconds_def mult_le_0_iff)
next
  case False
  then have "Milliseconds d = d div 1000000" by (simp add: Milliseconds_pos)
  moreover have "d div 1000000 \<le> 0 \<longleftrightarrow> d < 1000000"
    using less_div_million [of 0 d] by auto
  ultimately show ?thesis by simp
qed

lemma Milliseconds_gt_iff:
  assumes "0 \<le> k"
  shows "k < Milliseconds d \<longleftrightarrow> (k + 1) * 1000000 \<le> d"
proof (cases "d \<le> 0")
  case True
  then have "Milliseconds d \<le> 0" by (simp add: Milliseconds_le_0_iff)
  with True assms show ?thesis by auto
next
  case False
  then have "Milliseconds d = d div 1000000" by (simp add: Milliseconds_pos)
  then show ?thesis by (simp only: less_div_million)
qed

text \<open>The saturation of \<open>Sub\<close> changes neither test of the resolver.\<close>

lemma Milliseconds_Sub_le_0: "Milliseconds (Sub t u) \<le> 0 \<longleftrightarrow> Milliseconds (t - u) \<le> 0"
  by (simp add: Milliseconds_le_0_iff Sub_def Let_def)

lemma Milliseconds_Sub_gt:
  "2 ^ 41 - 1 < Milliseconds (Sub t u) \<longleftrightarrow> 2 ^ 41 - 1 < Milliseconds (t - u)"
  by (simp add: Milliseconds_gt_iff Sub_def Let_def)

lemma getElapsedTimestamp_eq:
  "getElapsedTimestamp s now =
     (if elapsedMilliseconds s now \<le> 0 then Inl ErrInvalidTimestamp
      else if elapsedMilliseconds s now > 2 ^ 41 - 1 then Inl ErrOverLifeTime
      else Inr (word_of_int (elapsedMilliseconds s now)))"
proof -
  let ?at = "effectiveTimestamp s now" and ?bt = "effectiveBaseTime s"
  have le: "Milliseconds (Sub ?at ?bt) \<le> 0 \<longleftrightarrow> elapsedMilliseconds s now \<le> 0"
    by (simp only: Milliseconds_Sub_le_0 elapsedMilliseconds_def)
  have gt: "2 ^ 41 - 1 < Milliseconds (Sub ?at ?bt) \<longleftrightarrow> 2 ^ 41 - 1 < elapsedMilliseconds s now"
    by (simp only: Milliseconds_Sub_gt elapsedMilliseconds_def)
  have eq: "Milliseconds (Sub ?at ?bt) = elapsedMilliseconds s now"
    if "\<not> 2 ^ 41 - 1 < elapsedMilliseconds s now" "\<not> elapsedMilliseconds s now \<le> 0"
  proof -
    have "?at - ?bt < 2 ^ 41 * 1000000" "0 < ?at - ?bt"
      using that by (simp_all add: elapsedMilliseconds_def Milliseconds_gt_iff Milliseconds_le_0_iff)
    then have "Sub ?at ?bt = ?at - ?bt"
      by (simp add: Sub_def Let_def)
    then show ?thesis by (simp add: elapsedMilliseconds_def)
  qed
  have unf: "getElapsedTimestamp s now =
     (let diffMilli = Milliseconds (Sub ?at ?bt)
      in if diffMilli \<le> 0 then Inl ErrInvalidTimestamp
         else if diffMilli > 2 ^ 41 - 1 then Inl ErrOverLifeTime
         else Inr (word_of_int diffMilli))"
    by (simp add: getElapsedTimestamp_def effectiveTimestamp_def effectiveBaseTime_def
        timestampBitRange_def Let_def)
  show ?thesis
    unfolding unf Let_def using le gt eq by auto
qed

lemma getElapsedTimestamp_Inr:
  assumes "getElapsedTimestamp s now = Inr ts"
  shows "0 < sint ts" and "sint ts \<le> 2 ^ 41 - 1" and "sint ts = elapsedMilliseconds s now"
proof -
  let ?e = "elapsedMilliseconds s now"
  from assms have r: "0 < ?e" "?e \<le> 2 ^ 41 - 1" "ts = word_of_int ?e"
    by (auto simp: getElapsedTimestamp_eq split: if_splits)
  have "sint (word_of_int ?e :: int64) = ?e"
    using r(1,2) signed_take_bit_int_eq_self [of 63 ?e] by (simp add: sint_sbintrunc')
  with r show "0 < sint ts" "sint ts \<le> 2 ^ 41 - 1" "sint ts = elapsedMilliseconds s now"
    by simp_all
qed

subsection \<open>The options and the loop over them\<close>

lemma WithDatacenterID_eq:
  "WithDatacenterID v s =
     (if 0 \<le>s v \<and> v \<le>s 31 then Inr (s\<lparr>datacenterID := v\<rparr>) else Inl ErrInvalidDatacenterID)"
  by (auto simp: WithDatacenterID_def datacenterBitRange_def word_sle_eq word_sless_alt)

lemma WithMachineID_eq:
  "WithMachineID v s =
     (if 0 \<le>s v \<and> v \<le>s 31 then Inr (s\<lparr>machineID := v\<rparr>) else Inl ErrInvalidMachineID)"
  by (auto simp: WithMachineID_def machineBitRange_def word_sle_eq word_sless_alt)

lemma WithSequenceNumber_eq:
  "WithSequenceNumber v s =
     (if 0 \<le>s v \<and> v \<le>s 4095 then Inr (s\<lparr>sequenceNumber := v\<rparr>)
      else Inl ErrInvalidSequenceNumber)"
  by (auto simp: WithSequenceNumber_def sequenceNumBitRange_def word_sle_eq word_sless_alt)


lemma exported_fieldsInRange:
  assumes "f \<in> exportedOptions" and "f s = Inr s'" and "fieldsInRange s"
  shows "fieldsInRange s'"
  using assms
  by (auto simp: exportedOptions_def fieldsInRange_def WithTimestamp_def WithBaseTime_def
      WithRandomEnabled_def WithDatacenterID_eq WithMachineID_eq WithSequenceNumber_eq
      split: if_splits)

lemma applyOpts_fieldsInRange:
  assumes "set opts \<subseteq> exportedOptions" and "applyOpts opts s = Inr s'" and "fieldsInRange s"
  shows "fieldsInRange s'"
  using assms
proof (induction opts arbitrary: s)
  case Nil
  then show ?case by simp
next
  case (Cons f opts)
  from Cons.prems(2) obtain s1 where f: "f s = Inr s1" and rest: "applyOpts opts s1 = Inr s'"
    by (auto split: sum.splits)
  have "fieldsInRange s1"
    using Cons.prems(1) f Cons.prems(3) by (auto intro: exported_fieldsInRange)
  with Cons.IH [of s1] Cons.prems(1) rest show ?case by simp
qed

lemma fieldsInRange_snowflake0: "fieldsInRange snowflake0"
  by (simp add: fieldsInRange_def snowflake0_def word_sle_eq)

subsection \<open>The random fill\<close>

lemma randCeiling_values:
  "randCeiling datacenterBitRange = 6"
  "randCeiling machineBitRange = 6"
  "randCeiling sequenceNumBitRange = 13"
  by (simp_all add: randCeiling_def datacenterBitRange_def machineBitRange_def
      sequenceNumBitRange_def)

text \<open>The state after the random fill, field by field.\<close>

lemma randomize_eq:
  "randomize s g =
     (let d = (if datacenterID s = 0 then word_of_nat (g 0 mod 6) else datacenterID s);
          g1 = (if datacenterID s = 0 then (\<lambda>i. g (Suc i)) else g);
          m = (if machineID s = 0 then word_of_nat (g1 0 mod 6) else machineID s);
          g2 = (if machineID s = 0 then (\<lambda>i. g1 (Suc i)) else g1);
          q = (if sequenceNumber s = 0 then word_of_nat (g2 0 mod 13) else sequenceNumber s)
      in s\<lparr>datacenterID := d, machineID := m, sequenceNumber := q\<rparr>)"
  by (simp add: randomize_def randCeiling_values Intn_def Let_def)

lemma draw_in_range:
  "0 \<le>s (word_of_nat (k mod 6) :: int64) \<and> (word_of_nat (k mod 6) :: int64) \<le>s 31"
  "0 \<le>s (word_of_nat (k mod 13) :: int64) \<and> (word_of_nat (k mod 13) :: int64) \<le>s 4095"
proof -
  have "k mod 6 < 2 ^ 5" by (rule less_trans [of _ 6]) simp_all
  then show "0 \<le>s (word_of_nat (k mod 6) :: int64) \<and> (word_of_nat (k mod 6) :: int64) \<le>s 31"
    unfolding range5_iff by (rule word_of_nat_small)
  have "k mod 13 < 2 ^ 12" by (rule less_trans [of _ 13]) simp_all
  then show "0 \<le>s (word_of_nat (k mod 13) :: int64) \<and> (word_of_nat (k mod 13) :: int64) \<le>s 4095"
    unfolding range12_iff by (rule word_of_nat_small)
qed

lemma randomize_fieldsInRange:
  assumes "fieldsInRange s"
  shows "fieldsInRange (randomize s g)"
  using assms draw_in_range
  by (simp add: randomize_eq fieldsInRange_def Let_def)

lemma randomize_timestamp: "timestamp (randomize s g) = timestamp s"
  by (simp add: randomize_eq Let_def)

subsection \<open>The outcomes of a call\<close>

lemma NewSnowflakeID_success:
  assumes "NewSnowflakeID opts now g = (x, None)"
  obtains s ts where "applyOpts opts snowflake0 = Inr s"
    and "getElapsedTimestamp s now = Inr ts"
    and "x = generatedID (if random s then randomize (s\<lparr>timestamp := ts\<rparr>) g
                           else s\<lparr>timestamp := ts\<rparr>)"
  using assms by (auto simp: NewSnowflakeID_def Let_def split: sum.splits)

lemma NewSnowflakeID_failure:
  assumes "snd (NewSnowflakeID opts now g) \<noteq> None"
  shows "fst (NewSnowflakeID opts now g) = 0"
  using assms by (auto simp: NewSnowflakeID_def Let_def split: sum.splits)


text \<open>Every id of a successful call on exported options is a packed, in-range state.\<close>

lemma NewSnowflakeID_packed:
  assumes "set opts \<subseteq> exportedOptions" and "NewSnowflakeID opts now g = (x, None)"
  obtains s' where "x = generatedID s'" and "fieldsInRange s'"
    and "0 < sint (timestamp s')" and "sint (timestamp s') \<le> 2 ^ 41 - 1"
proof -
  from assms(2) obtain s ts where a: "applyOpts opts snowflake0 = Inr s"
    and e: "getElapsedTimestamp s now = Inr ts"
    and x: "x = generatedID (if random s then randomize (s\<lparr>timestamp := ts\<rparr>) g
                              else s\<lparr>timestamp := ts\<rparr>)"
    by (rule NewSnowflakeID_success)
  let ?s' = "if random s then randomize (s\<lparr>timestamp := ts\<rparr>) g else s\<lparr>timestamp := ts\<rparr>"
  have "fieldsInRange s"
    using assms(1) a fieldsInRange_snowflake0 by (rule applyOpts_fieldsInRange)
  then have "fieldsInRange (s\<lparr>timestamp := ts\<rparr>)" by (simp add: fieldsInRange_def)
  then have r: "fieldsInRange ?s'" by (simp add: randomize_fieldsInRange)
  have t: "timestamp ?s' = ts" by (simp add: randomize_timestamp)
  have "0 < sint (timestamp ?s')" and "sint (timestamp ?s') \<le> 2 ^ 41 - 1"
    using getElapsedTimestamp_Inr(1,2) [OF e] by (simp_all only: t)
  with x r show thesis by (rule that)
qed


subsection \<open>Concrete instants\<close>

lemma Date_values:
  "Date 2024 1 1 0 0 0 0 = 1704067200000000000"
  "Date 2024 2 1 0 0 0 0 = 1706745600000000000"
  "Date 2020 1 1 0 0 0 0 = 1577836800000000000"
  "Date 1970 1 1 0 0 0 0 = 0"
  "Date 1969 12 31 0 0 0 0 = - 86400000000000"
  by (simp_all add: Date_def daysSinceEpoch_def)

lemma binaryDigits_numeral:
  "binaryDigits (numeral k) n =
     binaryDigits (pred_numeral k) (n div 2) @ [if odd n then CHR ''1'' else CHR ''0'']"
  by (simp add: numeral_eq_Suc)

lemmas option_defs =
  WithTimestamp_def WithDatacenterID_eq WithMachineID_eq WithSequenceNumber_eq
  WithBaseTime_def WithRandomEnabled_def

lemmas clock_defs =
  getElapsedTimestamp_eq elapsedMilliseconds_def effectiveTimestamp_def effectiveBaseTime_def
  IsZero_def zeroTime_def defaultBaseTime_def Date_values UnixMilli_def timeUnixMilli_def
  Milliseconds_def

subsection \<open>Draws and a call with randomization alone\<close>

lemma sint_word_of_nat:
  assumes "k < 2 ^ 63"
  shows "sint (word_of_nat k :: int64) = int k"
proof -
  have "int k < 2 ^ 63" using assms by (simp flip: of_nat_less_iff)
  moreover have "- (2 ^ 63) \<le> int k" by (rule order_trans [of _ 0]) simp_all
  ultimately have "signed_take_bit 63 (int k) = int k"
    by (rule signed_take_bit_int_eq_self [rotated])
  moreover have "(word_of_nat k :: int64) = word_of_int (int k)" by simp
  ultimately show ?thesis by (simp only: sint_sbintrunc') simp
qed

lemma draw_bounds:
  "(word_of_nat (k mod 6) :: int64) \<le>s 5"
  "(word_of_nat (k mod 13) :: int64) \<le>s 12"
proof -
  have "k mod 6 < 2 ^ 63" by (rule less_trans [of _ 6]) simp_all
  then have "sint (word_of_nat (k mod 6) :: int64) = int (k mod 6)" by (rule sint_word_of_nat)
  moreover have "int (k mod 6) \<le> 5" by simp
  ultimately show "(word_of_nat (k mod 6) :: int64) \<le>s 5" by (simp add: word_sle_eq)
  have "k mod 13 < 2 ^ 63" by (rule less_trans [of _ 13]) simp_all
  then have "sint (word_of_nat (k mod 13) :: int64) = int (k mod 13)" by (rule sint_word_of_nat)
  moreover have "int (k mod 13) \<le> 12" by simp
  ultimately show "(word_of_nat (k mod 13) :: int64) \<le>s 12" by (simp add: word_sle_eq)
qed

text \<open>A call with randomization alone, a month after the default epoch.\<close>

lemma random_call:
  "NewSnowflakeID [WithRandomEnabled] (Date 2024 2 1 0 0 0 0) g =
     (generatedID \<lparr>timestamp = 2678400000, datacenterID = word_of_nat (g 0 mod 6),
                   machineID = word_of_nat (g 1 mod 6),
                   sequenceNumber = word_of_nat (g 2 mod 13),
                   baseTime = zeroTime, random = True\<rparr>, None)"
proof -
  have e: "getElapsedTimestamp
        \<lparr>timestamp = 0, datacenterID = 0, machineID = 0, sequenceNumber = 0,
           baseTime = zeroTime, random = True\<rparr> (Date 2024 2 1 0 0 0 0)
      = Inr 2678400000"
    by (simp add: clock_defs word_sless_alt)
  show ?thesis
    by (simp add: NewSnowflakeID_def WithRandomEnabled_def e randomize_eq snowflake0_def
        numeral_2_eq_2)
qed

lemma random_state_in_range:
  "fieldsInRange \<lparr>timestamp = t, datacenterID = word_of_nat (a mod 6),
                  machineID = word_of_nat (b mod 6), sequenceNumber = word_of_nat (c mod 13),
                  baseTime = bt, random = r\<rparr>"
  using draw_in_range by (simp add: fieldsInRange_def)

text \<open>Options that leave the three identifier fields alone, and the random flag.\<close>

lemma applyOpts_fields_unset:
  assumes "set opts \<subseteq> range WithTimestamp \<union> range WithBaseTime \<union> {WithRandomEnabled}"
    and "applyOpts opts s = Inr s'"
  shows "datacenterID s' = datacenterID s" and "machineID s' = machineID s"
    and "sequenceNumber s' = sequenceNumber s"
    and "random s \<or> WithRandomEnabled \<in> set opts \<Longrightarrow> random s'"
  using assms
proof (induction opts arbitrary: s)
  case Nil
  {
    case 1 then show ?case by simp
  next
    case 2 then show ?case by simp
  next
    case 3 then show ?case by simp
  next
    case 4 then show ?case by simp
  }
next
  case (Cons f opts)
  {
    case 1
    from 1(2) obtain s1 where f: "f s = Inr s1" and rest: "applyOpts opts s1 = Inr s'"
      by (auto split: sum.splits)
    have "datacenterID s1 = datacenterID s"
      using 1(1) f by (auto simp: WithTimestamp_def WithBaseTime_def WithRandomEnabled_def)
    with Cons.IH(1) [of s1] 1(1) rest show ?case by simp
  next
    case 2
    from 2(2) obtain s1 where f: "f s = Inr s1" and rest: "applyOpts opts s1 = Inr s'"
      by (auto split: sum.splits)
    have "machineID s1 = machineID s"
      using 2(1) f by (auto simp: WithTimestamp_def WithBaseTime_def WithRandomEnabled_def)
    with Cons.IH(2) [of s1] 2(1) rest show ?case by simp
  next
    case 3
    from 3(2) obtain s1 where f: "f s = Inr s1" and rest: "applyOpts opts s1 = Inr s'"
      by (auto split: sum.splits)
    have "sequenceNumber s1 = sequenceNumber s"
      using 3(1) f by (auto simp: WithTimestamp_def WithBaseTime_def WithRandomEnabled_def)
    with Cons.IH(3) [of s1] 3(1) rest show ?case by simp
  next
    case 4
    from 4(3) obtain s1 where f: "f s = Inr s1" and rest: "applyOpts opts s1 = Inr s'"
      by (auto split: sum.splits)
    have "random s1" if "random s \<or> f = WithRandomEnabled"
      using that 4(2) f by (auto simp: WithTimestamp_def WithBaseTime_def WithRandomEnabled_def)
    then have "random s1 \<or> WithRandomEnabled \<in> set opts"
      using 4(1) by auto
    with Cons.IH(4) [of s1] 4(2) rest show ?case by simp
  }
qed

section \<open>The claims\<close>

text \<open>
  C1. The call with the explicit timestamp 2024-02-01T00:00:00Z, no base time,
  datacenterID 31, machineID 15 and sequenceNumber 1 succeeds, whatever the clock and the
  random source, and returns 11234023837724673, which prints as the 64 binary digits
  0000000000100111111010010100100100000000001111101111000000000001.
\<close>

theorem example_id:
  "NewSnowflakeID
     [WithTimestamp (Date 2024 2 1 0 0 0 0), WithDatacenterID 31, WithMachineID 15,
      WithSequenceNumber 1] now g
   = (11234023837724673, None)
   \<and> Sprintf064b 11234023837724673
     = ''0000000000100111111010010100100100000000001111101111000000000001''"
proof
  show "NewSnowflakeID
     [WithTimestamp (Date 2024 2 1 0 0 0 0), WithDatacenterID 31, WithMachineID 15,
      WithSequenceNumber 1] now g = (11234023837724673, None)"
    by (simp add: NewSnowflakeID_def option_defs clock_defs snowflake0_def generatedID_def
        shift_defs word_sle_eq word_sless_alt)
  show "Sprintf064b 11234023837724673
     = ''0000000000100111111010010100100100000000001111101111000000000001''"
    by (simp add: Sprintf064b_def binaryDigits_numeral)
qed

text \<open>
  C2 does not hold of the code. The ceilings passed to the random source are
  \<open>(2 XOR 5) - 1 = 6\<close> and \<open>(2 XOR 12) - 1 = 13\<close>, so a call with randomization alone
  draws a datacenterID and a machineID of at most 5 and a sequenceNumber of at most 12,
  for every random source: the values 6 to 31 and 13 to 4095 are never produced.
\<close>

theorem random_ceiling:
  "randCeiling datacenterBitRange = 6
   \<and> randCeiling machineBitRange = 6
   \<and> randCeiling sequenceNumBitRange = 13
   \<and> snd (NewSnowflakeID [WithRandomEnabled] (Date 2024 2 1 0 0 0 0) g) = None
   \<and> decodeDatacenterID (fst (NewSnowflakeID [WithRandomEnabled] (Date 2024 2 1 0 0 0 0) g)) \<le>s 5
   \<and> decodeMachineID (fst (NewSnowflakeID [WithRandomEnabled] (Date 2024 2 1 0 0 0 0) g)) \<le>s 5
   \<and> decodeSequenceNumber (fst (NewSnowflakeID [WithRandomEnabled] (Date 2024 2 1 0 0 0 0) g)) \<le>s 12"
proof -
  let ?s = "\<lparr>timestamp = 2678400000, datacenterID = word_of_nat (g 0 mod 6),
             machineID = word_of_nat (g 1 mod 6), sequenceNumber = word_of_nat (g 2 mod 13),
             baseTime = zeroTime, random = True\<rparr>"
  have f: "fieldsInRange ?s" by (rule random_state_in_range)
  have t: "0 < sint (timestamp ?s)" "sint (timestamp ?s) \<le> 2 ^ 41 - 1" by simp_all
  have d: "decodeDatacenterID (generatedID ?s) = word_of_nat (g 0 mod 6)"
    "decodeMachineID (generatedID ?s) = word_of_nat (g 1 mod 6)"
    "decodeSequenceNumber (generatedID ?s) = word_of_nat (g 2 mod 13)"
    using generatedID_fields(2-4) [OF f t] by simp_all
  show ?thesis
    unfolding random_call fst_conv snd_conv d
    by (simp add: randCeiling_values draw_bounds)
qed


text \<open>
  C3. Each range-setting option fails, with an error kind of its own, exactly when its
  argument is negative or above the maximum of the field (31, 31, 4095), and otherwise
  stores the argument; the maximum itself is accepted; a call that fails returns the
  id 0.
\<close>

theorem range_options:
  "(WithDatacenterID v s = Inl ErrInvalidDatacenterID \<longleftrightarrow> v <s 0 \<or> 31 <s v)
   \<and> (WithMachineID v s = Inl ErrInvalidMachineID \<longleftrightarrow> v <s 0 \<or> 31 <s v)
   \<and> (WithSequenceNumber v s = Inl ErrInvalidSequenceNumber \<longleftrightarrow> v <s 0 \<or> 4095 <s v)
   \<and> (\<not> (v <s 0 \<or> 31 <s v) \<longrightarrow> WithDatacenterID v s = Inr (s\<lparr>datacenterID := v\<rparr>))
   \<and> (\<not> (v <s 0 \<or> 31 <s v) \<longrightarrow> WithMachineID v s = Inr (s\<lparr>machineID := v\<rparr>))
   \<and> (\<not> (v <s 0 \<or> 4095 <s v) \<longrightarrow> WithSequenceNumber v s = Inr (s\<lparr>sequenceNumber := v\<rparr>))
   \<and> WithDatacenterID 31 s = Inr (s\<lparr>datacenterID := 31\<rparr>)
   \<and> WithMachineID 31 s = Inr (s\<lparr>machineID := 31\<rparr>)
   \<and> WithSequenceNumber 4095 s = Inr (s\<lparr>sequenceNumber := 4095\<rparr>)
   \<and> distinct [ErrInvalidDatacenterID, ErrInvalidMachineID, ErrInvalidSequenceNumber,
                ErrInvalidTimestamp, ErrOverLifeTime]
   \<and> (v <s 0 \<or> 31 <s v \<longrightarrow>
        NewSnowflakeID [WithDatacenterID v] now g = (0, Some ErrInvalidDatacenterID))
   \<and> (v <s 0 \<or> 31 <s v \<longrightarrow>
        NewSnowflakeID [WithMachineID v] now g = (0, Some ErrInvalidMachineID))
   \<and> (v <s 0 \<or> 4095 <s v \<longrightarrow>
        NewSnowflakeID [WithSequenceNumber v] now g = (0, Some ErrInvalidSequenceNumber))
   \<and> (snd (NewSnowflakeID opts now g) \<noteq> None \<longrightarrow> fst (NewSnowflakeID opts now g) = 0)"
proof -
  have d: "WithDatacenterID v s =
      (if v <s 0 \<or> 31 <s v then Inl ErrInvalidDatacenterID else Inr (s\<lparr>datacenterID := v\<rparr>))"
    for s by (simp add: WithDatacenterID_def datacenterBitRange_def)
  have m: "WithMachineID v s =
      (if v <s 0 \<or> 31 <s v then Inl ErrInvalidMachineID else Inr (s\<lparr>machineID := v\<rparr>))"
    for s by (simp add: WithMachineID_def machineBitRange_def)
  have q: "WithSequenceNumber v s =
      (if v <s 0 \<or> 4095 <s v then Inl ErrInvalidSequenceNumber
       else Inr (s\<lparr>sequenceNumber := v\<rparr>))"
    for s by (simp add: WithSequenceNumber_def sequenceNumBitRange_def)
  have z: "snd (NewSnowflakeID opts now g) \<noteq> None \<longrightarrow> fst (NewSnowflakeID opts now g) = 0"
    by (simp add: NewSnowflakeID_failure)
  have mx: "WithDatacenterID 31 s = Inr (s\<lparr>datacenterID := 31\<rparr>)"
    "WithMachineID 31 s = Inr (s\<lparr>machineID := 31\<rparr>)"
    "WithSequenceNumber 4095 s = Inr (s\<lparr>sequenceNumber := 4095\<rparr>)"
    by (simp_all add: option_defs word_sle_eq)
  show ?thesis
    using z mx by (simp add: d m q NewSnowflakeID_def)
qed

theorem range_options_witness:
  "WithDatacenterID 32 snowflake0 = Inl ErrInvalidDatacenterID
   \<and> WithMachineID (- 1) snowflake0 = Inl ErrInvalidMachineID
   \<and> WithSequenceNumber 4096 snowflake0 = Inl ErrInvalidSequenceNumber
   \<and> WithDatacenterID 7 snowflake0 = Inr (snowflake0\<lparr>datacenterID := 7\<rparr>)
   \<and> NewSnowflakeID [WithDatacenterID 32] (Date 2024 2 1 0 0 0 0) (fixedSource 0)
       = (0, Some ErrInvalidDatacenterID)
   \<and> snd (NewSnowflakeID [WithMachineID 32] (Date 2024 2 1 0 0 0 0) (fixedSource 0)) \<noteq> None
   \<and> fst (NewSnowflakeID [WithMachineID 32] (Date 2024 2 1 0 0 0 0) (fixedSource 0)) = 0"
proof -
  have e: "snd (NewSnowflakeID [WithMachineID 32] (Date 2024 2 1 0 0 0 0) (fixedSource 0)) \<noteq> None"
    by (simp add: NewSnowflakeID_def option_defs word_sle_eq)
  show ?thesis
    using e
      range_options [of 32 snowflake0 "Date 2024 2 1 0 0 0 0" "fixedSource 0" "[WithMachineID 32]"]
      range_options [of "- 1" snowflake0 "Date 2024 2 1 0 0 0 0" "fixedSource 0" "[]"]
      range_options [of 4096 snowflake0 "Date 2024 2 1 0 0 0 0" "fixedSource 0" "[]"]
      range_options [of 7 snowflake0 "Date 2024 2 1 0 0 0 0" "fixedSource 0" "[]"]
    by (simp add: word_sless_alt)
qed







text \<open>
  C6. Every id returned by a successful call on options built with the package's
  constructors has its sign bit clear: it is positive and at most \<open>2 ^ 63 - 1\<close>.
\<close>

theorem sign_bit_clear:
  assumes "set opts \<subseteq> exportedOptions" and "NewSnowflakeID opts now g = (x, None)"
  shows "\<not> bit x 63 \<and> 0 <s x \<and> x \<le>s 2 ^ 63 - 1"
proof -
  from assms obtain s' where x: "x = generatedID s'" and f: "fieldsInRange s'"
    and t: "0 < sint (timestamp s')" "sint (timestamp s') \<le> 2 ^ 41 - 1"
    by (rule NewSnowflakeID_packed)
  have "0 < sint x" "sint x \<le> 2 ^ 63 - 1" "\<not> bit x 63"
    unfolding x by (rule generatedID_positive [OF f t])+
  then show ?thesis
    by (simp add: word_sle_eq word_sless_alt)
qed

theorem sign_bit_clear_witness:
  "set [WithTimestamp (Date 2024 2 1 0 0 0 0), WithDatacenterID 31, WithMachineID 15,
        WithSequenceNumber 1] \<subseteq> exportedOptions
   \<and> NewSnowflakeID
       [WithTimestamp (Date 2024 2 1 0 0 0 0), WithDatacenterID 31, WithMachineID 15,
        WithSequenceNumber 1] (Date 2020 1 1 0 0 0 0) (fixedSource 0)
     = (11234023837724673, None)
   \<and> \<not> bit (11234023837724673 :: int64) 63
   \<and> 0 <s (11234023837724673 :: int64)
   \<and> (11234023837724673 :: int64) \<le>s 2 ^ 63 - 1"
proof -
  have m: "set [WithTimestamp (Date 2024 2 1 0 0 0 0), WithDatacenterID 31, WithMachineID 15,
        WithSequenceNumber 1] \<subseteq> exportedOptions"
    by (simp add: exportedOptions_def)
  have n: "NewSnowflakeID
       [WithTimestamp (Date 2024 2 1 0 0 0 0), WithDatacenterID 31, WithMachineID 15,
        WithSequenceNumber 1] (Date 2020 1 1 0 0 0 0) (fixedSource 0)
     = (11234023837724673, None)"
    by (simp add: NewSnowflakeID_def option_defs clock_defs snowflake0_def generatedID_def
        shift_defs word_sle_eq word_sless_alt)
  show ?thesis
    using m n sign_bit_clear [OF m n] by simp
qed




text \<open>
  C8. With randomization enabled and no option setting datacenterID, machineID or
  sequenceNumber, a successful call packs the state left by the random fill. In that
  state the three fields are the draws of the random source and lie in [0, 31], [0, 31]
  and [0, 4095], whatever the source draws; and the id decodes to exactly the elapsed
  timestamp and these three fields, so no field spills into another.
\<close>

theorem random_fields_in_range:
  assumes "set opts \<subseteq> range WithTimestamp \<union> range WithBaseTime \<union> {WithRandomEnabled}"
    and "WithRandomEnabled \<in> set opts"
    and "NewSnowflakeID opts now g = (x, None)"
  shows "\<exists>s ts. applyOpts opts snowflake0 = Inr s
           \<and> getElapsedTimestamp s now = Inr ts
           \<and> x = generatedID (randomize (s\<lparr>timestamp := ts\<rparr>) g)
           \<and> datacenterID (randomize (s\<lparr>timestamp := ts\<rparr>) g) = word_of_nat (g 0 mod 6)
           \<and> machineID (randomize (s\<lparr>timestamp := ts\<rparr>) g) = word_of_nat (g 1 mod 6)
           \<and> sequenceNumber (randomize (s\<lparr>timestamp := ts\<rparr>) g) = word_of_nat (g 2 mod 13)
           \<and> fieldsInRange (randomize (s\<lparr>timestamp := ts\<rparr>) g)
           \<and> decodeTimestamp x = ts
           \<and> decodeDatacenterID x = datacenterID (randomize (s\<lparr>timestamp := ts\<rparr>) g)
           \<and> decodeMachineID x = machineID (randomize (s\<lparr>timestamp := ts\<rparr>) g)
           \<and> decodeSequenceNumber x = sequenceNumber (randomize (s\<lparr>timestamp := ts\<rparr>) g)"
proof -
  from assms(3) obtain s ts where a: "applyOpts opts snowflake0 = Inr s"
    and e: "getElapsedTimestamp s now = Inr ts"
    and x0: "x = generatedID (if random s then randomize (s\<lparr>timestamp := ts\<rparr>) g
                               else s\<lparr>timestamp := ts\<rparr>)"
    by (rule NewSnowflakeID_success)
  let ?r = "randomize (s\<lparr>timestamp := ts\<rparr>) g"
  have z: "datacenterID s = 0" "machineID s = 0" "sequenceNumber s = 0"
    using applyOpts_fields_unset(1-3) [OF assms(1) a] by (simp_all add: snowflake0_def)
  have "random s"
    using assms(2) by (intro applyOpts_fields_unset(4) [OF assms(1) a]) simp
  then have x: "x = generatedID ?r" using x0 by simp
  have d: "datacenterID ?r = word_of_nat (g 0 mod 6)"
    "machineID ?r = word_of_nat (g 1 mod 6)"
    "sequenceNumber ?r = word_of_nat (g 2 mod 13)"
    by (simp_all add: randomize_eq z numeral_2_eq_2)
  have "fieldsInRange (s\<lparr>timestamp := ts\<rparr>)"
    by (simp add: fieldsInRange_def z word_sle_eq)
  then have f: "fieldsInRange ?r" by (rule randomize_fieldsInRange)
  have t: "0 < sint (timestamp ?r)" "sint (timestamp ?r) \<le> 2 ^ 41 - 1"
    using getElapsedTimestamp_Inr(1,2) [OF e] by (simp_all add: randomize_timestamp)
  have "timestamp ?r = ts" by (simp add: randomize_timestamp)
  then have c: "decodeTimestamp x = ts"
    "decodeDatacenterID x = datacenterID ?r"
    "decodeMachineID x = machineID ?r"
    "decodeSequenceNumber x = sequenceNumber ?r"
    unfolding x using generatedID_fields(1-4) [OF f t] by simp_all
  from a e x d f c show ?thesis by blast
qed

theorem random_fields_in_range_witness:
  "set [WithRandomEnabled] \<subseteq> range WithTimestamp \<union> range WithBaseTime \<union> {WithRandomEnabled}
   \<and> WithRandomEnabled \<in> set [WithRandomEnabled]
   \<and> (\<exists>x. NewSnowflakeID [WithRandomEnabled] (Date 2024 2 1 0 0 0 0) (fixedSource 4095) = (x, None)
          \<and> decodeTimestamp x = 2678400000
          \<and> decodeDatacenterID x = 3
          \<and> decodeMachineID x = 3
          \<and> decodeSequenceNumber x = 0)"
proof -
  let ?c = "generatedID \<lparr>timestamp = 2678400000,
              datacenterID = word_of_nat (fixedSource 4095 0 mod 6),
              machineID = word_of_nat (fixedSource 4095 1 mod 6),
              sequenceNumber = word_of_nat (fixedSource 4095 2 mod 13),
              baseTime = zeroTime, random = True\<rparr>"
  have m: "set [WithRandomEnabled] \<subseteq> range WithTimestamp \<union> range WithBaseTime \<union> {WithRandomEnabled}"
    by simp
  have r: "WithRandomEnabled \<in> set [WithRandomEnabled]"
    by simp
  have n: "NewSnowflakeID [WithRandomEnabled] (Date 2024 2 1 0 0 0 0) (fixedSource 4095) = (?c, None)"
    by (rule random_call)
  have e0: "getElapsedTimestamp (snowflake0\<lparr>random := True\<rparr>) (Date 2024 2 1 0 0 0 0)
      = Inr 2678400000"
    by (simp add: clock_defs snowflake0_def word_sless_alt)
  from random_fields_in_range [OF m r n] obtain s ts
    where a: "applyOpts [WithRandomEnabled] snowflake0 = Inr s"
      and e: "getElapsedTimestamp s (Date 2024 2 1 0 0 0 0) = Inr ts"
      and d: "datacenterID (randomize (s\<lparr>timestamp := ts\<rparr>) (fixedSource 4095))
                = word_of_nat (fixedSource 4095 0 mod 6)"
        "machineID (randomize (s\<lparr>timestamp := ts\<rparr>) (fixedSource 4095))
                = word_of_nat (fixedSource 4095 1 mod 6)"
        "sequenceNumber (randomize (s\<lparr>timestamp := ts\<rparr>) (fixedSource 4095))
                = word_of_nat (fixedSource 4095 2 mod 13)"
      and c: "decodeTimestamp ?c = ts"
        "decodeDatacenterID ?c = datacenterID (randomize (s\<lparr>timestamp := ts\<rparr>) (fixedSource 4095))"
        "decodeMachineID ?c = machineID (randomize (s\<lparr>timestamp := ts\<rparr>) (fixedSource 4095))"
        "decodeSequenceNumber ?c
           = sequenceNumber (randomize (s\<lparr>timestamp := ts\<rparr>) (fixedSource 4095))"
    by blast
  from a have "s = snowflake0\<lparr>random := True\<rparr>"
    by (simp add: WithRandomEnabled_def)
  with e e0 have ts: "ts = 2678400000" by simp
  have "decodeTimestamp ?c = ts"
    "decodeDatacenterID ?c = word_of_nat (fixedSource 4095 0 mod 6)"
    "decodeMachineID ?c = word_of_nat (fixedSource 4095 1 mod 6)"
    "decodeSequenceNumber ?c = word_of_nat (fixedSource 4095 2 mod 13)"
    by (simp_all only: c d)
  then have "decodeTimestamp ?c = 2678400000" "decodeDatacenterID ?c = 3"
    "decodeMachineID ?c = 3" "decodeSequenceNumber ?c = 0"
    by (simp_all add: ts fixedSource_def)
  with m r n show ?thesis by simp
qed

text \<open>
  C9. A timestamp override whose Unix-millisecond value is at most 0 is ignored: the
  clock resolver then works from the current time, as if the timestamp had been left
  at its zero value, and a call with this override alone equals the call with no option.
  An override with a positive value makes the result independent of the current time.
\<close>

theorem nonpositive_timestamp_ignored:
  "(UnixMilli t \<le>s 0 \<longrightarrow>
      (\<exists>s'. WithTimestamp t s = Inr s' \<and> effectiveTimestamp s' now = now
            \<and> getElapsedTimestamp s' now = getElapsedTimestamp (s\<lparr>timestamp := 0\<rparr>) now))
   \<and> (UnixMilli t \<le>s 0 \<longrightarrow>
        NewSnowflakeID [WithTimestamp t] now g = NewSnowflakeID [] now g)
   \<and> (0 <s UnixMilli t \<longrightarrow>
        NewSnowflakeID [WithTimestamp t] now g = NewSnowflakeID [WithTimestamp t] now' g)"
proof (intro conjI impI)
  have ign: "getElapsedTimestamp (r\<lparr>timestamp := UnixMilli t\<rparr>) now
      = getElapsedTimestamp (r\<lparr>timestamp := 0\<rparr>) now" if "UnixMilli t \<le>s 0" for r
    using that by (simp add: getElapsedTimestamp_def word_sless_alt word_sle_eq)
  show "\<exists>s'. WithTimestamp t s = Inr s' \<and> effectiveTimestamp s' now = now
            \<and> getElapsedTimestamp s' now = getElapsedTimestamp (s\<lparr>timestamp := 0\<rparr>) now"
    if le: "UnixMilli t \<le>s 0"
  proof (intro exI conjI)
    show "WithTimestamp t s = Inr (s\<lparr>timestamp := UnixMilli t\<rparr>)"
      by (simp add: WithTimestamp_def)
    show "effectiveTimestamp (s\<lparr>timestamp := UnixMilli t\<rparr>) now = now"
      using le by (simp add: effectiveTimestamp_def word_sless_alt word_sle_eq)
    show "getElapsedTimestamp (s\<lparr>timestamp := UnixMilli t\<rparr>) now
        = getElapsedTimestamp (s\<lparr>timestamp := 0\<rparr>) now"
      using le by (rule ign)
  qed
  show "NewSnowflakeID [WithTimestamp t] now g = NewSnowflakeID [] now g"
    if le: "UnixMilli t \<le>s 0"
  proof -
    have "snowflake0\<lparr>timestamp := 0\<rparr> = snowflake0" by (simp add: snowflake0_def)
    then have "getElapsedTimestamp (snowflake0\<lparr>timestamp := UnixMilli t\<rparr>) now
        = getElapsedTimestamp snowflake0 now"
      using ign [OF le, of snowflake0] by simp
    then show ?thesis
      by (simp add: NewSnowflakeID_def WithTimestamp_def Let_def split: sum.splits)
  qed
  show "NewSnowflakeID [WithTimestamp t] now g = NewSnowflakeID [WithTimestamp t] now' g"
    if "0 <s UnixMilli t"
  proof -
    have "getElapsedTimestamp (snowflake0\<lparr>timestamp := UnixMilli t\<rparr>) now
        = getElapsedTimestamp (snowflake0\<lparr>timestamp := UnixMilli t\<rparr>) now'"
      using that by (simp add: getElapsedTimestamp_def)
    then show ?thesis
      by (simp add: NewSnowflakeID_def WithTimestamp_def Let_def split: sum.splits)
  qed
qed

theorem nonpositive_timestamp_ignored_witness:
  "UnixMilli (Date 1969 12 31 0 0 0 0) \<le>s 0
   \<and> NewSnowflakeID [WithTimestamp (Date 1969 12 31 0 0 0 0)] (Date 2024 2 1 0 0 0 0)
        (fixedSource 0)
     = NewSnowflakeID [] (Date 2024 2 1 0 0 0 0) (fixedSource 0)
   \<and> NewSnowflakeID [] (Date 2024 2 1 0 0 0 0) (fixedSource 0) = (11234023833600000, None)
   \<and> 0 <s UnixMilli (Date 2024 2 1 0 0 0 0)
   \<and> NewSnowflakeID [WithTimestamp (Date 2024 2 1 0 0 0 0)] (Date 2024 2 1 0 0 0 0)
        (fixedSource 0)
     = NewSnowflakeID [WithTimestamp (Date 2024 2 1 0 0 0 0)] (Date 2020 1 1 0 0 0 0)
        (fixedSource 0)"
proof -
  have a: "UnixMilli (Date 1969 12 31 0 0 0 0) \<le>s 0"
    by (simp add: UnixMilli_def Date_values word_sle_eq)
  have b: "0 <s UnixMilli (Date 2024 2 1 0 0 0 0)"
    by (simp add: UnixMilli_def Date_values word_sless_alt)
  have c: "NewSnowflakeID [] (Date 2024 2 1 0 0 0 0) (fixedSource 0) = (11234023833600000, None)"
    by (simp add: NewSnowflakeID_def clock_defs snowflake0_def generatedID_def shift_defs
        word_sless_alt)
  show ?thesis
    using a b c
      nonpositive_timestamp_ignored [of "Date 1969 12 31 0 0 0 0" snowflake0
        "Date 2024 2 1 0 0 0 0" "fixedSource 0" "Date 2020 1 1 0 0 0 0"]
      nonpositive_timestamp_ignored [of "Date 2024 2 1 0 0 0 0" snowflake0
        "Date 2024 2 1 0 0 0 0" "fixedSource 0" "Date 2020 1 1 0 0 0 0"]
    by simp
qed


end
